theory Spec2Isabelle
  imports Complex_Main
begin

section \<open>Data model\<close>

text \<open>
  The notebook works on networkx graphs whose nodes are integers. A graph is kept as the
  list of its nodes, in the order in which the graph iterates them, and the list of its
  edges (a multigraph may hold an edge more than once). An edge \<open>(a, b)\<close> is undirected.
\<close>

record graph =
  nodes :: "int list"
  edges :: "(int \<times> int) list"

text \<open>
  The exceptions the notebook's own statements can raise (IndexError, ValueError,
  StatisticsError), and the exceptions raised inside the libraries it calls: the
  AssertionError of an argument check, the NetworkXPointlessConcept of networkx on the
  graph without nodes, and one value for any other library error.
\<close>

datatype py_error =
  IndexError | ValueError | StatisticsError
  | AssertionError | NetworkXPointlessConcept | LibraryError

definition number_of_nodes :: "graph \<Rightarrow> nat" where
  "number_of_nodes G = length (nodes G)"

text \<open>
  The invariant of the data model: a node is listed once, and every endpoint of an edge is
  a node of the graph.
\<close>

definition wf_graph :: "graph \<Rightarrow> bool" where
  "wf_graph G \<longleftrightarrow>
     distinct (nodes G) \<and>
     list_all (\<lambda>(a, b). a \<in> set (nodes G) \<and> b \<in> set (nodes G)) (edges G)"

section \<open>Flow clustering: parameter search\<close>

text \<open>
  The clustering itself is the library \<open>markov_clustering\<close>, which is not part of the
  repository: \<open>run_mcl\<close>, \<open>get_clusters\<close> and \<open>modularity\<close> are parameters of the
  model, over any type of matrices, of converged flow matrices and of cluster sets.
  \<open>run_mcl\<close> may reject its arguments, so its result is an error or a converged
  matrix; an error passes through the notebook's functions, which handle none.
  Modularities are compared as real numbers.
\<close>

record ('m, 'r, 'c) mcl_lib =
  run_mcl :: "'m \<Rightarrow> int \<Rightarrow> real \<Rightarrow> py_error + 'r"
  get_clusters :: "'r \<Rightarrow> 'c"
  modularity :: "'r \<Rightarrow> 'c \<Rightarrow> real"

text \<open>
  \<^verbatim>\<open>
  def mc_loop(mat, exp, infl):
      res = mc.run_mcl(mat, expansion=exp, inflation=infl)
      clu = mc.get_clusters(res)
      mod = mc.modularity(res, clu)
      return mod

  def mc_loop_final(mat, exp, infl):
      res = mc.run_mcl(mat, expansion=exp, inflation=infl)
      return mc.get_clusters(res)
  \<close>
\<close>

definition mc_loop :: "('m, 'r, 'c) mcl_lib \<Rightarrow> 'm \<Rightarrow> int \<Rightarrow> real \<Rightarrow> py_error + real" where
  "mc_loop lib mat expn infl =
     (case run_mcl lib mat expn infl of Inl err \<Rightarrow> Inl err
      | Inr res \<Rightarrow>
          (let clu = get_clusters lib res
           in Inr (modularity lib res clu)))"

definition mc_loop_final :: "('m, 'r, 'c) mcl_lib \<Rightarrow> 'm \<Rightarrow> int \<Rightarrow> real \<Rightarrow> py_error + 'c" where
  "mc_loop_final lib mat expn infl =
     (case run_mcl lib mat expn infl of Inl err \<Rightarrow> Inl err
      | Inr res \<Rightarrow> Inr (get_clusters lib res))"

text \<open>
  \<^verbatim>\<open>
  def mc_train(mat, expand, start, end):
      max_infl = max_mod = 0
      mod_series = []
      for inflation in [i / 10 for i in range(start, end)]:
          Q = mc_loop(mat, expand, inflation)
          mod_series.append(Q)
          if (Q > max_mod):
              max_mod = Q
              max_infl = inflation
      return max_infl, max_mod, mod_series
  \<close>
  The loop runs over the indices \<open>start, ..., end - 1\<close> with the state
  \<open>(max_infl, max_mod, mod_series)\<close>, and stops at the first error.
\<close>

fun mc_train_loop ::
  "('m, 'r, 'c) mcl_lib \<Rightarrow> 'm \<Rightarrow> int \<Rightarrow> int list \<Rightarrow> real \<times> real \<times> real list
     \<Rightarrow> py_error + real \<times> real \<times> real list" where
  "mc_train_loop lib mat expand [] st = Inr st"
| "mc_train_loop lib mat expand (i # rest) (max_infl, max_mod, mod_series) =
     (let inflation = real_of_int i / 10
      in case mc_loop lib mat expand inflation of Inl err \<Rightarrow> Inl err
         | Inr Q \<Rightarrow>
             if Q > max_mod
             then mc_train_loop lib mat expand rest (inflation, Q, mod_series @ [Q])
             else mc_train_loop lib mat expand rest (max_infl, max_mod, mod_series @ [Q]))"

definition mc_train ::
  "('m, 'r, 'c) mcl_lib \<Rightarrow> 'm \<Rightarrow> int \<Rightarrow> int \<Rightarrow> int \<Rightarrow> py_error + real \<times> real \<times> real list" where
  "mc_train lib mat expand start stop =
     mc_train_loop lib mat expand [start..stop - 1] (0, 0, [])"

text \<open>
  \<^verbatim>\<open>
  def markov_grand_loop(matr, expand_start, expand_end, infl_start, infl_end):
      max_expand = grand_max_infl = grand_max_modularity = 0
      mod_ser_by_expansion = []
      for i in range(expand_start, expand_end+1):
          curr_max_infl, curr_max_mod, mod_ser = mc_train(matr, i, infl_start, infl_end)
          mod_ser_by_expansion.append(mod_ser)
          if grand_max_modularity < curr_max_mod:
              max_expand = i
              grand_max_infl = curr_max_infl
              grand_max_modularity = curr_max_mod
      draw_graph(inflation_series, mod_ser_by_expansion, expand_start, expand_end)
      final_cluster = mc_loop_final(matr, max_expand, grand_max_infl)
      return final_cluster
  \<close>
  \<open>markov_search\<close> is the loop, with the state
  \<open>(max_expand, grand_max_infl, grand_max_modularity, mod_ser_by_expansion)\<close>;
  \<open>draw_graph\<close> only plots the series.
\<close>

fun markov_loop ::
  "('m, 'r, 'c) mcl_lib \<Rightarrow> 'm \<Rightarrow> int list \<Rightarrow> int \<Rightarrow> int
     \<Rightarrow> int \<times> real \<times> real \<times> real list list
     \<Rightarrow> py_error + int \<times> real \<times> real \<times> real list list" where
  "markov_loop lib matr [] infl_start infl_end st = Inr st"
| "markov_loop lib matr (i # rest) infl_start infl_end
       (max_expand, grand_max_infl, grand_max_modularity, mod_ser_by_expansion) =
     (case mc_train lib matr i infl_start infl_end of Inl err \<Rightarrow> Inl err
      | Inr (curr_max_infl, curr_max_mod, mod_ser) \<Rightarrow>
          if grand_max_modularity < curr_max_mod
          then markov_loop lib matr rest infl_start infl_end
                 (i, curr_max_infl, curr_max_mod, mod_ser_by_expansion @ [mod_ser])
          else markov_loop lib matr rest infl_start infl_end
                 (max_expand, grand_max_infl, grand_max_modularity,
                  mod_ser_by_expansion @ [mod_ser]))"

definition markov_search ::
  "('m, 'r, 'c) mcl_lib \<Rightarrow> 'm \<Rightarrow> int \<Rightarrow> int \<Rightarrow> int \<Rightarrow> int
     \<Rightarrow> py_error + int \<times> real \<times> real \<times> real list list" where
  "markov_search lib matr expand_start expand_end infl_start infl_end =
     markov_loop lib matr [expand_start..expand_end] infl_start infl_end (0, 0, 0, [])"

definition markov_grand_loop ::
  "('m, 'r, 'c) mcl_lib \<Rightarrow> 'm \<Rightarrow> int \<Rightarrow> int \<Rightarrow> int \<Rightarrow> int \<Rightarrow> py_error + 'c" where
  "markov_grand_loop lib matr expand_start expand_end infl_start infl_end =
     (case markov_search lib matr expand_start expand_end infl_start infl_end of
        Inl err \<Rightarrow> Inl err
      | Inr (max_expand, grand_max_infl, grand_max_modularity, mod_ser_by_expansion) \<Rightarrow>
          mc_loop_final lib matr max_expand grand_max_infl)"

section \<open>Spectral clustering\<close>

text \<open>
  The Laplacian, its eigen-decomposition and the k-means or k-medoids fit are numerical
  library code (numpy, scikit-learn), not part of the repository. A labeler stands for
  one call of that whole computation: from the ambient random state, the graph and the
  number of clusters it gives the list \<open>labels_\<close>, one label per row of the Laplacian,
  or the library's exception, together with the random state the call leaves. The source
  passes no \<open>random_state\<close>, so every call is a fresh randomised fit: two calls give
  the same labels only when they start from the same random state. Cluster counts and
  labels are natural numbers, as the library requires.
\<close>

type_synonym 's labeler = "'s \<Rightarrow> graph \<Rightarrow> nat \<Rightarrow> (py_error + nat list) \<times> 's"

text \<open>
  \<^verbatim>\<open>
  def spectral(G, n = 3):
      ...
      km = KMeans(n)
      km.fit(eigenvecs[:,1:n])
      labels = km.labels_.tolist()
      node_no = list(range(1, G.number_of_nodes() + 1))
      node_no = np.array(node_no).tolist()
      node_and_label = dict(zip(node_no, labels))
      return node_and_label
  \<close>
  The dictionary is kept as the list of its items in insertion order; its keys are
  distinct, since they come from a range. \<open>spectral_2\<close> is the same function on the
  k-medoids fit. Both take the random state \<open>rs\<close> and return the one the fit leaves.
\<close>

definition spectral ::
  "'s labeler \<Rightarrow> 's \<Rightarrow> graph \<Rightarrow> nat \<Rightarrow> (py_error + (int \<times> nat) list) \<times> 's" where
  "spectral kmeans rs G n =
     (case kmeans rs G n of
        (Inl e, rs') \<Rightarrow> (Inl e, rs')
      | (Inr labels, rs') \<Rightarrow>
          (let node_no = [1..int (number_of_nodes G)]
           in (Inr (zip node_no labels), rs')))"

definition spectral_2 ::
  "'s labeler \<Rightarrow> 's \<Rightarrow> graph \<Rightarrow> nat \<Rightarrow> (py_error + (int \<times> nat) list) \<times> 's" where
  "spectral_2 kmedoids rs G n =
     (case kmedoids rs G n of
        (Inl e, rs') \<Rightarrow> (Inl e, rs')
      | (Inr labels, rs') \<Rightarrow>
          (let node_no = [1..int (number_of_nodes G)]
           in (Inr (zip node_no labels), rs')))"

text \<open>
  \<^verbatim>\<open>
  def spectral_post_process(n, node_and_labl):
      clusters = []
      for i in range(n):
          clusters.append([])
      for j in node_and_labl:
          clusters[node_and_labl.get(j)].append(j)
      return clusters
  \<close>
  A label that is not below \<open>n\<close> raises IndexError.
\<close>

fun place :: "int list list \<Rightarrow> (int \<times> nat) list \<Rightarrow> py_error + int list list" where
  "place clusters [] = Inr clusters"
| "place clusters ((j, l) # rest) =
     (if l < length clusters then place (clusters[l := clusters ! l @ [j]]) rest
      else Inl IndexError)"

definition spectral_post_process :: "nat \<Rightarrow> (int \<times> nat) list \<Rightarrow> py_error + int list list" where
  "spectral_post_process n node_and_labl = place (replicate n []) node_and_labl"






text \<open>
  The clusterer invoked directly in the random state \<open>rs\<close>, followed by the conversion
  of its labeling into cluster lists: with the k-means fit and with the k-medoids fit.
\<close>

definition spectral_clusters ::
  "'s labeler \<Rightarrow> 's \<Rightarrow> graph \<Rightarrow> nat \<Rightarrow> (py_error + int list list) \<times> 's" where
  "spectral_clusters kmeans rs G k =
     (case spectral kmeans rs G k of
        (Inl e, rs') \<Rightarrow> (Inl e, rs')
      | (Inr d, rs') \<Rightarrow> (spectral_post_process k d, rs'))"

definition spectral_2_clusters ::
  "'s labeler \<Rightarrow> 's \<Rightarrow> graph \<Rightarrow> nat \<Rightarrow> (py_error + int list list) \<times> 's" where
  "spectral_2_clusters kmedoids rs G k =
     (case spectral_2 kmedoids rs G k of
        (Inl e, rs') \<Rightarrow> (Inl e, rs')
      | (Inr d, rs') \<Rightarrow> (spectral_post_process k d, rs'))"


section \<open>Community filter\<close>

text \<open>
  Modelled from the spec: \<open>Graph.subgraph\<close> belongs to networkx, which is not part of the
  repository. Subgraph induction returns the graph restricted to the given nodes and to the
  edges between them, and keeps the relative order of the retained nodes.
\<close>

definition subgraph :: "graph \<Rightarrow> int list \<Rightarrow> graph" where
  "subgraph G ns =
     \<lparr>nodes = filter (\<lambda>v. v \<in> set ns) (nodes G),
      edges = filter (\<lambda>(a, b). a \<in> set ns \<and> b \<in> set ns) (edges G)\<rparr>"

text \<open>
  \<^verbatim>\<open>
  def separate_communities(Dgraph, communities):
      comm = []
      for i in communities:
          if len(i) <= 4:
              continue
          else:
              co = Dgraph.subgraph(i)
              comm.append(co)
      return comm
  \<close>
  The loop runs over the clusters with the accumulator \<open>comm\<close>.
\<close>

fun separate_loop :: "graph \<Rightarrow> int list list \<Rightarrow> graph list \<Rightarrow> graph list" where
  "separate_loop Dgraph [] comm = comm"
| "separate_loop Dgraph (i # rest) comm =
     (if length i \<le> 4 then separate_loop Dgraph rest comm
      else separate_loop Dgraph rest (comm @ [subgraph Dgraph i]))"

definition separate_communities :: "graph \<Rightarrow> int list list \<Rightarrow> graph list" where
  "separate_communities Dgraph communities = separate_loop Dgraph communities []"

text \<open>
  Passing a list of communities back to the filter: iterating a networkx graph yields its
  nodes and \<open>len\<close> of a graph is its number of nodes, so each community is read as the
  list of its nodes.
\<close>

definition refilter :: "graph \<Rightarrow> graph list \<Rightarrow> graph list" where
  "refilter Dgraph comm = separate_communities Dgraph (map nodes comm)"

section \<open>Centrality ranking\<close>

definition degree :: "graph \<Rightarrow> int \<Rightarrow> nat" where
  "degree G v = length (filter (\<lambda>(a, b). a = v) (edges G))
              + length (filter (\<lambda>(a, b). b = v) (edges G))"

text \<open>
  Modelled from the spec: \<open>nx.degree_centrality\<close> belongs to networkx, which is not part
  of the repository. The score of a node is the fraction of the possible edges that are
  incident to it within the community, that is its degree over \<open>n - 1\<close>; the library gives
  every node the score 1 when the community has at most one node. The mapping is keyed by
  the community's nodes in their iteration order.
\<close>

definition nx_degree_centrality :: "graph \<Rightarrow> (int \<times> real) list" where
  "nx_degree_centrality G =
     (if length (nodes G) \<le> 1 then map (\<lambda>n. (n, 1)) (nodes G)
      else map (\<lambda>n. (n, real (degree G n) / (real (length (nodes G)) - 1))) (nodes G))"

definition neighbors :: "graph \<Rightarrow> int \<Rightarrow> int list" where
  "neighbors G v =
     filter (\<lambda>u. (v, u) \<in> set (edges G) \<or> (u, v) \<in> set (edges G)) (nodes G)"

text \<open>
  Breadth-first levels from a frontier: level \<open>d\<close> holds the nodes at shortest-path
  distance \<open>d\<close>. Every level but the last adds a node not seen before, so a fuel of the
  number of nodes is enough.
\<close>

fun bfs_levels :: "graph \<Rightarrow> nat \<Rightarrow> int list \<Rightarrow> int list \<Rightarrow> int list list" where
  "bfs_levels G 0 frontier seen = []"
| "bfs_levels G (Suc fuel) frontier seen =
     (if frontier = [] then []
      else let nxt = remdups (filter (\<lambda>u. u \<notin> set seen) (concat (map (neighbors G) frontier)))
           in frontier # bfs_levels G fuel nxt (seen @ nxt))"

fun total_distance :: "nat \<Rightarrow> int list list \<Rightarrow> nat" where
  "total_distance d [] = 0"
| "total_distance d (l # ls) = d * length l + total_distance (Suc d) ls"

text \<open>
  Modelled from the spec: \<open>nx.closeness_centrality\<close> belongs to networkx, which is not
  part of the repository. The score of a node is the inverse of the average shortest-path
  distance from it to all the other nodes it reaches in the community, and 0 when it
  reaches no other node. The mapping is keyed by the community's nodes in their iteration
  order.
\<close>

definition closeness_of :: "graph \<Rightarrow> int \<Rightarrow> real" where
  "closeness_of G v =
     (let levels = bfs_levels G (length (nodes G)) [v] [v];
          reached = length (concat levels);
          totsp = total_distance 0 levels
      in if totsp > 0 then (real reached - 1) / real totsp else 0)"

definition nx_closeness_centrality :: "graph \<Rightarrow> (int \<times> real) list" where
  "nx_closeness_centrality G = map (\<lambda>n. (n, closeness_of G n)) (nodes G)"

text \<open>
  \<open>eigencentrality\<close> mirrors the community into a directed graph (\<open>nx.DiGraph(G)\<close>)
  and calls \<open>nx.eigenvector_centrality\<close>, a numerical power iteration of the library;
  the two calls together are a parameter of the model. The library raises on the graph
  without nodes and when the iteration does not converge, so the result is an error or a
  score mapping.
\<close>

type_synonym eigen_solver = "graph \<Rightarrow> py_error + (int \<times> real) list"

text \<open>
  \<^verbatim>\<open>
  def degree_centrality(G, lst):
      ctr = nx.degree_centrality(G)
      sorted_ctr = sorted(ctr.items(), key = lambda ctr: ctr[1])
      sorted_ctr.reverse()
      lst.append(sorted_ctr[0][0])
  \<close>
  \<open>sorted\<close> is stable and ascending, as \<open>sort_key\<close> is; \<open>sorted_ctr[0]\<close> raises
  IndexError on the empty list. The list \<open>lst\<close> is mutated in place: the model returns it
  updated. \<open>close_centrality\<close> and \<open>eigencentrality\<close> have the same body on their own
  score mapping.
\<close>

definition degree_centrality :: "graph \<Rightarrow> int list \<Rightarrow> py_error + int list" where
  "degree_centrality G lst =
     (let ctr = nx_degree_centrality G;
          sorted_ctr = rev (sort_key snd ctr)
      in case sorted_ctr of [] \<Rightarrow> Inl IndexError | p # _ \<Rightarrow> Inr (lst @ [fst p]))"

definition close_centrality :: "graph \<Rightarrow> int list \<Rightarrow> py_error + int list" where
  "close_centrality G lst =
     (let centr = nx_closeness_centrality G;
          sorted_centr = rev (sort_key snd centr)
      in case sorted_centr of [] \<Rightarrow> Inl IndexError | p # _ \<Rightarrow> Inr (lst @ [fst p]))"

definition eigencentrality :: "eigen_solver \<Rightarrow> graph \<Rightarrow> int list \<Rightarrow> py_error + int list" where
  "eigencentrality ev G lst =
     (case ev G of Inl e \<Rightarrow> Inl e
      | Inr ctr \<Rightarrow>
          (let sorted_ctr = rev (sort_key snd ctr)
           in case sorted_ctr of [] \<Rightarrow> Inl IndexError | p # _ \<Rightarrow> Inr (lst @ [fst p])))"

text \<open>
  \<^verbatim>\<open>
  def create_list_of_local_influencers(communi, mode):
      influencer_list = []
      for com in communi:
          if mode == 1: degree_centrality(com, influencer_list)
          if mode == 2: close_centrality(com, influencer_list)
          if mode == 3: eigencentrality(com, influencer_list)
      return influencer_list
  \<close>
\<close>

fun influencers_loop ::
  "eigen_solver \<Rightarrow> graph list \<Rightarrow> int \<Rightarrow> int list \<Rightarrow> py_error + int list" where
  "influencers_loop ev [] mode influencer_list = Inr influencer_list"
| "influencers_loop ev (com # rest) mode influencer_list =
     (case (if mode = 1 then degree_centrality com influencer_list else Inr influencer_list) of
        Inl e \<Rightarrow> Inl e
      | Inr l1 \<Rightarrow>
     (case (if mode = 2 then close_centrality com l1 else Inr l1) of
        Inl e \<Rightarrow> Inl e
      | Inr l2 \<Rightarrow>
     (case (if mode = 3 then eigencentrality ev com l2 else Inr l2) of
        Inl e \<Rightarrow> Inl e
      | Inr l3 \<Rightarrow> influencers_loop ev rest mode l3)))"

definition create_list_of_local_influencers ::
  "eigen_solver \<Rightarrow> graph list \<Rightarrow> int \<Rightarrow> py_error + int list" where
  "create_list_of_local_influencers ev communi mode = influencers_loop ev communi mode []"

text \<open>
  The node that appears last, in the iteration order of a score mapping, among the nodes
  that share the maximum score.
\<close>

definition last_max_node :: "(int \<times> real) list \<Rightarrow> int" where
  "last_max_node items =
     fst (last (filter (\<lambda>p. snd p = Max (snd ` set items)) items))"

text \<open>The triangle on the nodes 1, 2, 3.\<close>

definition triangle :: graph where
  "triangle = \<lparr>nodes = [1, 2, 3], edges = [(1, 2), (1, 3), (2, 3)]\<rparr>"

definition null_graph :: graph where
  "null_graph = \<lparr>nodes = [], edges = []\<rparr>"

definition lone_node :: graph where
  "lone_node = \<lparr>nodes = [7], edges = []\<rparr>"

text \<open>
  A solver that raises NetworkXPointlessConcept on the graph without nodes, as the
  library does, and otherwise scores every node 1, keyed by the nodes in their iteration
  order.
\<close>

definition unit_solver :: eigen_solver where
  "unit_solver G =
     (if nodes G = [] then Inl NetworkXPointlessConcept
      else Inr (map (\<lambda>n. (n, 1)) (nodes G)))"

section \<open>Notions used in the statements\<close>

text \<open>
  The outcome of the trial with expansion \<open>e\<close> and inflation index \<open>i\<close>, that is
  inflation \<open>i / 10\<close>: its modularity, or the error of the run.
\<close>

definition trial_modularity ::
  "('m, 'r, 'c) mcl_lib \<Rightarrow> 'm \<Rightarrow> int \<Rightarrow> int \<Rightarrow> py_error + real" where
  "trial_modularity lib mat e i = mc_loop lib mat e (real_of_int i / 10)"

section \<open>Example inputs\<close>

text \<open>
  A path on the nodes 0, 1, 2, numbered from 0 as the notebook's graphs are, and a
  labeling of its three rows.
\<close>

definition line3 :: graph where
  "line3 = \<lparr>nodes = [0, 1, 2], edges = [(0, 1), (1, 2)]\<rparr>"

definition labels3 :: "'s labeler" where
  "labels3 rs G n = (Inr [0, 0, 1], rs)"




definition chain5 :: graph where
  "chain5 = \<lparr>nodes = [0, 1, 2, 3, 4], edges = [(0, 1), (1, 2), (2, 3), (3, 4)]\<rparr>"

definition chain7 :: graph where
  "chain7 = \<lparr>nodes = [0, 1, 2, 3, 4, 5, 6], edges = [(0, 1), (1, 2), (2, 6), (5, 6)]\<rparr>"

text \<open>
  Stand-ins for the clustering library. Each returns the parameters of the run as its
  cluster set, so that the result of a search shows the parameters of the final run.
  The first two accept every argument; their modularity is \<open>-1/10\<close> everywhere, or
  \<open>1/2\<close> at inflation 1.2 and \<open>1/4\<close> elsewhere. The third checks its arguments as
  \<open>run_mcl\<close> of the library does, with the assertions \<open>expansion > 1\<close> and
  \<open>inflation > 1\<close>, and has the modularity 0 everywhere, the modularity of a
  partition into one cluster.
\<close>

definition sunk_lib :: "(unit, int \<times> real, int \<times> real) mcl_lib" where
  "sunk_lib = \<lparr>run_mcl = (\<lambda>m e r. Inr (e, r)), get_clusters = (\<lambda>r. r),
      modularity = (\<lambda>r c. - 1 / 10)\<rparr>"

definition peak_lib :: "(unit, int \<times> real, int \<times> real) mcl_lib" where
  "peak_lib = \<lparr>run_mcl = (\<lambda>m e r. Inr (e, r)), get_clusters = (\<lambda>r. r),
      modularity = (\<lambda>r c. if snd c = 12 / 10 then 1 / 2 else 1 / 4)\<rparr>"

definition strict_lib :: "(unit, int \<times> real, int \<times> real) mcl_lib" where
  "strict_lib =
     \<lparr>run_mcl = (\<lambda>m e r. if 1 < e \<and> 1 < r then Inr (e, r) else Inl AssertionError),
      get_clusters = (\<lambda>r. r), modularity = (\<lambda>r c. 0)\<rparr>"

section \<open>Properties of the community filter\<close>

lemma separate_loop_eq:
  "separate_loop G cs comm = comm @ map (subgraph G) (filter (\<lambda>c. 4 < length c) cs)"
  by (induction cs arbitrary: comm) (auto simp: not_le)

lemma separate_communities_eq:
  "separate_communities G cs = map (subgraph G) (filter (\<lambda>c. 4 < length c) cs)"
  by (simp add: separate_communities_def separate_loop_eq)

text \<open>
  Claim C6. The community filter returns the induced subgraphs of exactly the clusters
  with more than 4 entries, in the order of the input list; the edges of the subgraph of
  a cluster are the edges of the graph with both endpoints in the cluster.
\<close>

theorem separate_communities_filter:
  "separate_communities G cs = map (subgraph G) (filter (\<lambda>c. 4 < length c) cs)
   \<and> set (edges (subgraph G c)) = {(a, b). (a, b) \<in> set (edges G) \<and> a \<in> set c \<and> b \<in> set c}"
  by (auto simp: separate_communities_eq subgraph_def)

text \<open>
  On a graph with seven nodes and the clusters of sizes 5, 2 and 6, the first and the
  third cluster survive, in this order, each with the edges inside it.
\<close>

theorem separate_communities_filter_witness:
  "separate_communities chain7 [[0, 1, 2, 3, 4], [5, 6], [1, 2, 3, 4, 5, 6]] =
     [\<lparr>nodes = [0, 1, 2, 3, 4], edges = [(0, 1), (1, 2)]\<rparr>,
      \<lparr>nodes = [1, 2, 3, 4, 5, 6], edges = [(1, 2), (2, 6), (5, 6)]\<rparr>]"
  using separate_communities_filter [of chain7 "[[0, 1, 2, 3, 4], [5, 6], [1, 2, 3, 4, 5, 6]]" "[]"]
  by (simp add: subgraph_def chain7_def)

lemma subgraph_nodes_length:
  assumes "distinct (nodes G)" "distinct c" "set c \<subseteq> set (nodes G)"
  shows "length (nodes (subgraph G c)) = length c"
proof -
  have "length (filter (\<lambda>v. v \<in> set c) (nodes G))
      = card (set (filter (\<lambda>v. v \<in> set c) (nodes G)))"
    by (rule distinct_card[symmetric]) (simp add: assms(1))
  also have "set (filter (\<lambda>v. v \<in> set c) (nodes G)) = set c"
    using assms(3) by auto
  also have "card (set c) = length c"
    using assms(2) by (simp add: distinct_card)
  finally show ?thesis by (simp add: subgraph_def)
qed

lemma subgraph_of_own_nodes:
  assumes "wf_graph G"
  shows "subgraph G (nodes (subgraph G c)) = subgraph G c"
proof -
  have e: "\<And>a b. (a, b) \<in> set (edges G) \<Longrightarrow> a \<in> set (nodes G) \<and> b \<in> set (nodes G)"
    using assms by (auto simp: wf_graph_def list_all_iff)
  have "filter (\<lambda>(a, b). a \<in> set (filter (\<lambda>v. v \<in> set c) (nodes G))
                        \<and> b \<in> set (filter (\<lambda>v. v \<in> set c) (nodes G))) (edges G)
      = filter (\<lambda>(a, b). a \<in> set c \<and> b \<in> set c) (edges G)"
    by (rule filter_cong) (auto dest: e)
  moreover have "filter (\<lambda>v. v \<in> set (filter (\<lambda>v. v \<in> set c) (nodes G))) (nodes G)
      = filter (\<lambda>v. v \<in> set c) (nodes G)"
    by (rule filter_cong) auto
  ultimately show ?thesis by (simp add: subgraph_def)
qed

text \<open>
  The second pass keeps a community when it has more than 4 nodes; the first pass kept
  it when its cluster had more than 4 entries.
\<close>

lemma refilter_eq:
  assumes "wf_graph G"
  shows "refilter G (separate_communities G cs)
       = filter (\<lambda>g. 4 < length (nodes g)) (separate_communities G cs)"
proof -
  have "map (subgraph G) (filter (\<lambda>c. 4 < length c) (map nodes (map (subgraph G) xs)))
      = filter (\<lambda>g. 4 < length (nodes g)) (map (subgraph G) xs)" for xs
    by (induction xs) (auto simp: subgraph_of_own_nodes[OF assms])
  then show ?thesis
    by (simp add: refilter_def separate_communities_eq)
qed

text \<open>
  Claim C7, as stated: filtering the output of the filter again returns the same list,
  for every cluster list. It fails on the graph with the nodes 0 to 4 and the cluster
  \<open>[1, 2, 3, 4, 5]\<close>: the cluster has 5 entries and passes, its subgraph has the 4 nodes
  1 to 4, since 5 is not a node of the graph, and the second pass drops it.
\<close>

theorem refilter_drops_community:
  "refilter chain5 (separate_communities chain5 [[1, 2, 3, 4, 5]])
     \<noteq> separate_communities chain5 [[1, 2, 3, 4, 5]]"
  by (simp add: refilter_def separate_communities_def subgraph_def chain5_def)

text \<open>
  Claim C7, amended: on a well-formed graph, when every cluster lists nodes of the graph
  without repetition, filtering the output of the filter again returns the same list.
\<close>

theorem refilter_idem:
  assumes "wf_graph G"
    and "\<forall>c \<in> set cs. distinct c \<and> set c \<subseteq> set (nodes G)"
  shows "refilter G (separate_communities G cs) = separate_communities G cs"
proof -
  have d: "distinct (nodes G)"
    using assms(1) by (simp add: wf_graph_def)
  have "filter (\<lambda>g. 4 < length (nodes g)) (map (subgraph G) (filter (\<lambda>c. 4 < length c) cs))
      = map (subgraph G) (filter (\<lambda>c. 4 < length c) cs)"
    using assms(2) by (auto simp: filter_id_conv subgraph_nodes_length[OF d])
  then show ?thesis
    using refilter_eq[OF assms(1), of cs] by (simp add: separate_communities_eq)
qed

theorem refilter_idem_witness:
  "wf_graph chain5
   \<and> distinct [0, 1, 2, 3, 4::int] \<and> set [0, 1, 2, 3, 4] \<subseteq> set (nodes chain5)
   \<and> distinct [1, 2::int] \<and> set [1, 2] \<subseteq> set (nodes chain5)
   \<and> refilter chain5 (separate_communities chain5 [[0, 1, 2, 3, 4], [1, 2]])
       = separate_communities chain5 [[0, 1, 2, 3, 4], [1, 2]]"
proof -
  have w: "wf_graph chain5"
    by (simp add: wf_graph_def chain5_def)
  have c: "\<forall>c \<in> set [[0, 1, 2, 3, 4], [1, 2]]. distinct c \<and> set c \<subseteq> set (nodes chain5)"
    by (simp add: chain5_def)
  show ?thesis
    using w c refilter_idem [OF w c] by simp
qed

section \<open>Properties of the centrality ranking\<close>

lemma sort_key_not_Nil: "xs \<noteq> [] \<Longrightarrow> sort_key f xs \<noteq> []"
  by (metis length_sort length_0_conv)

lemma last_filter_keep:
  "xs \<noteq> [] \<Longrightarrow> P (last xs) \<Longrightarrow> last (filter P xs) = last xs"
  by (induction xs rule: rev_induct) auto

text \<open>The last element of an ascending sort carries the maximum key.\<close>

lemma last_sort_key_max:
  fixes f :: "'a \<Rightarrow> real"
  assumes "xs \<noteq> []"
  shows "f (last (sort_key f xs)) = Max (f ` set xs)"
proof -
  let ?ys = "sort_key f xs"
  have ne: "?ys \<noteq> []"
    using assms by (rule sort_key_not_Nil)
  have s: "sorted (map f ?ys)"
    by (rule sorted_sort_key)
  have "\<forall>y \<in> set ?ys. f y \<le> f (last ?ys)"
  proof
    fix y assume "y \<in> set ?ys"
    then obtain i where i: "i < length ?ys" "?ys ! i = y"
      by (metis in_set_conv_nth)
    have "map f ?ys ! i \<le> map f ?ys ! (length ?ys - 1)"
      using s i(1) by (intro sorted_nth_mono) auto
    then show "f y \<le> f (last ?ys)"
      using i ne by (simp add: last_conv_nth)
  qed
  moreover have "last ?ys \<in> set xs"
    using ne last_in_set[OF ne] by simp
  ultimately show ?thesis
    by (intro Max_eqI[symmetric]) auto
qed

text \<open>
  Sorting is stable, so among the items with the maximum score the sort keeps the
  iteration order, and the reversal brings the last of them to the front.
\<close>

lemma top_is_last_max:
  assumes "items \<noteq> []" and r: "rev (sort_key snd items) = p # ps"
  shows "fst p = last_max_node items"
proof -
  let ?m = "Max (snd ` set items)"
  have p: "p = last (sort_key snd items)"
    using r by (metis hd_rev list.sel(1))
  have "snd (last (sort_key snd items)) = ?m"
    by (rule last_sort_key_max[OF assms(1)])
  then have "last (filter (\<lambda>y. snd y = ?m) (sort_key snd items)) = last (sort_key snd items)"
    using assms(1) by (intro last_filter_keep) (simp_all add: sort_key_not_Nil)
  then have "last (filter (\<lambda>y. snd y = ?m) items) = p"
    by (simp add: sort_key_stable p)
  then show ?thesis
    by (simp add: last_max_node_def)
qed

lemma rank_nonempty:
  assumes "items \<noteq> []"
  shows "(case rev (sort_key snd items) of [] \<Rightarrow> Inl IndexError | p # _ \<Rightarrow> Inr (lst @ [fst p]))
       = Inr (lst @ [last_max_node items])"
proof (cases "rev (sort_key snd items)")
  case Nil
  then show ?thesis
    using sort_key_not_Nil[OF assms, of snd] by simp
next
  case (Cons p ps)
  then show ?thesis
    using top_is_last_max[OF assms Cons] by simp
qed

lemma keys_degree: "map fst (nx_degree_centrality G) = nodes G"
  by (simp add: nx_degree_centrality_def comp_def)

lemma keys_closeness: "map fst (nx_closeness_centrality G) = nodes G"
  by (simp add: nx_closeness_centrality_def comp_def)

lemma triangle_degree: "nx_degree_centrality triangle = [(1, 1), (2, 1), (3, 1)]"
  by (simp add: nx_degree_centrality_def triangle_def degree_def)

lemma triangle_closeness: "nx_closeness_centrality triangle = [(1, 1), (2, 1), (3, 1)]"
  by (simp add: nx_closeness_centrality_def closeness_of_def triangle_def neighbors_def
      numeral_3_eq_3 Let_def)

text \<open>
  Claim C10. In every mode, on a score mapping that is not empty, the ranker appends the
  node that comes last in the iteration order of the mapping among the nodes with the
  maximum score. For the degree and closeness modes the mapping is a function of the
  community; for the eigenvector mode it is what the solver returns.
\<close>

theorem ranker_selects_last_max:
  assumes "nodes G \<noteq> []"
  shows "degree_centrality G lst = Inr (lst @ [last_max_node (nx_degree_centrality G)])
       \<and> close_centrality G lst = Inr (lst @ [last_max_node (nx_closeness_centrality G)])
       \<and> (ev G = Inr ctr \<longrightarrow> ctr \<noteq> [] \<longrightarrow>
            eigencentrality ev G lst = Inr (lst @ [last_max_node ctr]))"
proof -
  have "nx_degree_centrality G \<noteq> []"
    using assms keys_degree[of G] by auto
  then have 1: "degree_centrality G lst = Inr (lst @ [last_max_node (nx_degree_centrality G)])"
    by (simp add: degree_centrality_def rank_nonempty)
  have "nx_closeness_centrality G \<noteq> []"
    using assms keys_closeness[of G] by auto
  then have 2: "close_centrality G lst = Inr (lst @ [last_max_node (nx_closeness_centrality G)])"
    by (simp add: close_centrality_def rank_nonempty)
  have 3: "ev G = Inr ctr \<longrightarrow> ctr \<noteq> [] \<longrightarrow>
      eigencentrality ev G lst = Inr (lst @ [last_max_node ctr])"
    by (simp add: eigencentrality_def rank_nonempty)
  show ?thesis
    using 1 2 3 by simp
qed

text \<open>On the triangle every score is 1, and every mode appends node 3 to \<open>[9]\<close>.\<close>

theorem ranker_selects_last_max_witness:
  "nodes triangle \<noteq> []
   \<and> unit_solver triangle = Inr [(1, 1), (2, 1), (3, 1)]
   \<and> degree_centrality triangle [9] = Inr [9, 3]
   \<and> close_centrality triangle [9] = Inr [9, 3]
   \<and> eigencentrality unit_solver triangle [9] = Inr [9, 3]"
proof -
  have n: "nodes triangle \<noteq> []"
    by (simp add: triangle_def)
  have u: "unit_solver triangle = Inr [(1, 1), (2, 1), (3, 1)]"
    by (simp add: unit_solver_def triangle_def)
  have l: "last_max_node [(1, 1), (2, 1), (3, 1)] = 3"
    by (simp add: last_max_node_def)
  show ?thesis
    using n u l ranker_selects_last_max [OF n, of "[9]" unit_solver "[(1, 1), (2, 1), (3, 1)]"]
    by (simp add: triangle_degree triangle_closeness)
qed

text \<open>
  Claim C5, as stated: on the triangle with the nodes 1, 2, 3 both rankers select node 1,
  the lowest node id. The degree-mode ranker does not return node 1, and neither does the
  closeness-mode ranker.
\<close>

theorem triangle_not_lowest_id:
  "degree_centrality triangle [] \<noteq> Inr [1] \<and> close_centrality triangle [] \<noteq> Inr [1]"
  by (simp add: degree_centrality_def close_centrality_def triangle_degree triangle_closeness)

text \<open>
  Claim C5, amended: on the triangle with the nodes 1, 2, 3, degree centrality and
  closeness centrality both give every node the score 1, and the degree-mode and the
  closeness-mode rankers both select node 3, the last node in the iteration order.
\<close>

theorem triangle_selects_last_node:
  "nx_degree_centrality triangle = [(1, 1), (2, 1), (3, 1)]
   \<and> nx_closeness_centrality triangle = [(1, 1), (2, 1), (3, 1)]
   \<and> degree_centrality triangle [] = Inr [3]
   \<and> close_centrality triangle [] = Inr [3]
   \<and> create_list_of_local_influencers ev [triangle] 1 = Inr [3]
   \<and> create_list_of_local_influencers ev [triangle] 2 = Inr [3]"
  by (simp add: create_list_of_local_influencers_def degree_centrality_def close_centrality_def
      triangle_degree triangle_closeness)

text \<open>
  Claim C9, as stated: on a community with zero or one node every ranking operation
  returns a value. On the community without nodes no mode returns a value: the
  degree-mode and the closeness-mode rankers raise IndexError, and the eigenvector-mode
  ranker raises the NetworkXPointlessConcept of the solver.
\<close>

theorem ranking_null_graph_raises:
  "degree_centrality null_graph [] = Inl IndexError
   \<and> close_centrality null_graph [] = Inl IndexError
   \<and> eigencentrality unit_solver null_graph [] = Inl NetworkXPointlessConcept"
  by (simp add: degree_centrality_def close_centrality_def eigencentrality_def
      nx_degree_centrality_def nx_closeness_centrality_def unit_solver_def null_graph_def)

text \<open>
  Claim C9, amended: on a community with exactly one node each ranking operation appends
  that node. On a community with zero nodes no ranking operation returns a value: the
  degree mode and the closeness mode raise IndexError, and the eigenvector mode raises
  the NetworkXPointlessConcept of the solver. For the eigenvector mode the solver is
  taken as the library behaves: it raises NetworkXPointlessConcept on the graph without
  nodes, and on the one-node community it returns a score mapping keyed by the node.
\<close>

theorem ranking_small_community:
  assumes "length (nodes G) \<le> 1"
    and "nodes G = [] \<longrightarrow> ev G = Inl NetworkXPointlessConcept"
    and "nodes G \<noteq> [] \<longrightarrow> ev G = Inr ctr \<and> map fst ctr = nodes G"
  shows "degree_centrality G lst
           = (case nodes G of [] \<Rightarrow> Inl IndexError | v # _ \<Rightarrow> Inr (lst @ [v]))
       \<and> close_centrality G lst
           = (case nodes G of [] \<Rightarrow> Inl IndexError | v # _ \<Rightarrow> Inr (lst @ [v]))
       \<and> eigencentrality ev G lst
           = (case nodes G of [] \<Rightarrow> Inl NetworkXPointlessConcept
              | v # _ \<Rightarrow> Inr (lst @ [v]))"
proof (cases "nodes G")
  case Nil
  then show ?thesis
    using assms(2)
    by (simp add: degree_centrality_def close_centrality_def eigencentrality_def
        nx_degree_centrality_def nx_closeness_centrality_def)
next
  case (Cons v vs)
  then have vs: "vs = []"
    using assms(1) by simp
  have ev: "ev G = Inr ctr" "map fst ctr = [v]"
    using assms(3) Cons vs by simp_all
  have "eigencentrality ev G lst = Inr (lst @ [v])"
    using ev by (auto simp: eigencentrality_def map_eq_Cons_conv)
  then show ?thesis
    using Cons vs
    by (simp add: degree_centrality_def close_centrality_def
        nx_degree_centrality_def nx_closeness_centrality_def)
qed

text \<open>On the community with the one node 7, and on the community without nodes.\<close>

theorem ranking_small_community_witness:
  "length (nodes lone_node) \<le> 1
   \<and> unit_solver lone_node = Inr [(7, 1)]
   \<and> degree_centrality lone_node [] = Inr [7]
   \<and> close_centrality lone_node [] = Inr [7]
   \<and> eigencentrality unit_solver lone_node [] = Inr [7]
   \<and> length (nodes null_graph) \<le> 1
   \<and> unit_solver null_graph = Inl NetworkXPointlessConcept
   \<and> degree_centrality null_graph [9] = Inl IndexError
   \<and> close_centrality null_graph [9] = Inl IndexError
   \<and> eigencentrality unit_solver null_graph [9] = Inl NetworkXPointlessConcept"
proof -
  have n: "length (nodes lone_node) \<le> 1"
    by (simp add: lone_node_def)
  have u: "unit_solver lone_node = Inr [(7, 1)]"
    by (simp add: unit_solver_def lone_node_def)
  have k: "map fst [(7::int, 1::real)] = nodes lone_node"
    by (simp add: lone_node_def)
  have n0: "length (nodes null_graph) \<le> 1"
    by (simp add: null_graph_def)
  have u0: "unit_solver null_graph = Inl NetworkXPointlessConcept"
    by (simp add: unit_solver_def null_graph_def)
  have e0: "nodes null_graph = []"
    by (simp add: null_graph_def)
  have one: "degree_centrality lone_node [] = Inr [7]
      \<and> close_centrality lone_node [] = Inr [7]
      \<and> eigencentrality unit_solver lone_node [] = Inr [7]"
    using ranking_small_community [of lone_node unit_solver "[(7, 1)]" "[]"] n u k
    by (simp add: lone_node_def)
  have none: "degree_centrality null_graph [9] = Inl IndexError
      \<and> close_centrality null_graph [9] = Inl IndexError
      \<and> eigencentrality unit_solver null_graph [9] = Inl NetworkXPointlessConcept"
    using ranking_small_community [of null_graph unit_solver "[]" "[9]"] n0 u0 e0
    by simp
  show ?thesis
    using n u n0 u0 one none by simp
qed

section \<open>Properties of the spectral clustering\<close>

lemma place_eq:
  "\<forall>p \<in> set d. snd p < length cs \<Longrightarrow>
   place cs d = Inr (map (\<lambda>i. cs ! i @ map fst (filter (\<lambda>p. snd p = i) d)) [0..<length cs])"
proof (induction d arbitrary: cs)
  case Nil
  then show ?case by (simp add: map_nth)
next
  case (Cons a d)
  obtain j l where a: "a = (j, l)" by (cases a)
  have l: "l < length cs"
    using Cons.prems a by simp
  let ?cs = "cs[l := cs ! l @ [j]]"
  have "place ?cs d
      = Inr (map (\<lambda>i. ?cs ! i @ map fst (filter (\<lambda>p. snd p = i) d)) [0..<length ?cs])"
    using Cons.prems by (intro Cons.IH) simp
  moreover have "map (\<lambda>i. ?cs ! i @ map fst (filter (\<lambda>p. snd p = i) d)) [0..<length ?cs]
      = map (\<lambda>i. cs ! i @ map fst (filter (\<lambda>p. snd p = i) (a # d))) [0..<length cs]"
    using l by (auto simp: a nth_list_update)
  ultimately show ?case
    using l by (simp add: a)
qed

text \<open>With labels below \<open>n\<close>, cluster \<open>i\<close> lists the keys labelled \<open>i\<close>, in key order.\<close>

lemma spectral_post_process_eq:
  assumes "\<forall>p \<in> set d. snd p < n"
  shows "spectral_post_process n d
       = Inr (map (\<lambda>i. map fst (filter (\<lambda>p. snd p = i) d)) [0..<n])"
  using place_eq[of d "replicate n []"] assms by (simp add: spectral_post_process_def)

lemma clusters_partition:
  assumes "distinct (map fst d)" "\<forall>p \<in> set d. snd p < n"
  shows "\<exists>cs. spectral_post_process n d = Inr cs \<and> length cs = n
         \<and> (\<forall>i<n. \<forall>j<n. i \<noteq> j \<longrightarrow> set (cs ! i) \<inter> set (cs ! j) = {})
         \<and> (\<Union>c \<in> set cs. set c) = fst ` set d"
proof -
  let ?cs = "map (\<lambda>i. map fst (filter (\<lambda>p. snd p = i) d)) [0..<n]"
  have 1: "spectral_post_process n d = Inr ?cs"
    by (rule spectral_post_process_eq[OF assms(2)])
  have 2: "\<forall>i<n. \<forall>j<n. i \<noteq> j \<longrightarrow> set (?cs ! i) \<inter> set (?cs ! j) = {}"
  proof (intro allI impI)
    fix i j assume "i < n" "j < n" "i \<noteq> j"
    have "set (map fst (filter (\<lambda>p. snd p = i) d))
        \<inter> set (map fst (filter (\<lambda>p. snd p = j) d)) = {}"
    proof (rule ccontr)
      assume "\<not> ?thesis"
      then obtain x where "x \<in> set (map fst (filter (\<lambda>p. snd p = i) d))"
          "x \<in> set (map fst (filter (\<lambda>p. snd p = j) d))"
        by auto
      then have "(x, i) \<in> set d" "(x, j) \<in> set d"
        by auto
      then show False
        using assms(1) \<open>i \<noteq> j\<close> by (meson eq_key_imp_eq_value)
    qed
    then show "set (?cs ! i) \<inter> set (?cs ! j) = {}"
      using \<open>i < n\<close> \<open>j < n\<close> by simp
  qed
  have 3: "(\<Union>c \<in> set ?cs. set c) = fst ` set d"
    using assms(2) by force
  show ?thesis
    using 1 2 3 by (intro exI[of _ ?cs]) simp
qed

lemma spectral_keys:
  assumes "kmeans rs G n = (Inr labels, rs')" "length labels = number_of_nodes G"
  shows "\<exists>d. spectral kmeans rs G n = (Inr d, rs')
           \<and> map fst d = [1..int (number_of_nodes G)] \<and> map snd d = labels"
  using assms by (simp add: spectral_def)

lemma spectral_2_eq: "spectral_2 = spectral"
  by (intro ext) (simp add: spectral_2_def spectral_def)

text \<open>
  What the pipeline does give: when the fit returns one label below \<open>k\<close> per node, the
  cluster lists are pairwise disjoint and their union is the range \<open>1, ..., N\<close> of the
  node count \<open>N\<close>, whatever the identifiers of the nodes are.
\<close>

lemma spectral_partition:
  assumes "kmeans rs G k = (Inr labels, rs')" "length labels = number_of_nodes G"
    "\<forall>l \<in> set labels. l < k"
  shows "\<exists>cs. spectral_clusters kmeans rs G k = (Inr cs, rs') \<and> length cs = k
         \<and> (\<forall>i<k. \<forall>j<k. i \<noteq> j \<longrightarrow> set (cs ! i) \<inter> set (cs ! j) = {})
         \<and> (\<Union>c \<in> set cs. set c) = {1..int (number_of_nodes G)}"
proof -
  obtain d where d: "spectral kmeans rs G k = (Inr d, rs')"
      "map fst d = [1..int (number_of_nodes G)]" "map snd d = labels"
    using spectral_keys[of kmeans rs G k labels rs'] assms(1,2) by blast
  have "distinct (map fst d)"
    by (simp add: d(2))
  moreover have "\<forall>p \<in> set d. snd p < k"
    using assms(3) unfolding d(3)[symmetric] by simp
  ultimately obtain cs where "spectral_post_process k d = Inr cs" "length cs = k"
      "\<forall>i<k. \<forall>j<k. i \<noteq> j \<longrightarrow> set (cs ! i) \<inter> set (cs ! j) = {}"
      "(\<Union>c \<in> set cs. set c) = fst ` set d"
    using clusters_partition by blast
  moreover have "fst ` set d = {1..int (number_of_nodes G)}"
    using d(2) by (metis set_map set_upto)
  ultimately show ?thesis
    by (simp add: spectral_clusters_def d(1))
qed

text \<open>
  Claim C1 says that the clusters of the spectral pipeline are pairwise disjoint and that
  their union is the node set of the graph. On the path with the nodes 0, 1, 2 and the
  labels \<open>[0, 0, 1]\<close>, both variants return the clusters \<open>[1, 2]\<close> and \<open>[3]\<close>: node 0
  is in no cluster and 3 is not a node of the graph.
\<close>

theorem spectral_clusters_miss_node_zero:
  "spectral_clusters labels3 rs line3 2 = (Inr [[1, 2], [3]], rs)
   \<and> spectral_2_clusters labels3 rs line3 2 = (Inr [[1, 2], [3]], rs)
   \<and> (\<Union>c \<in> set [[1, 2], [3]]. set c) \<noteq> set (nodes line3)"
proof -
  have "spectral_clusters labels3 rs line3 2 = (Inr [[1, 2], [3]], rs)"
    by (simp add: spectral_clusters_def spectral_def spectral_post_process_def
        labels3_def line3_def number_of_nodes_def upto.simps numeral_2_eq_2)
  moreover have "spectral_2_clusters labels3 rs line3 2 = (Inr [[1, 2], [3]], rs)"
    by (simp add: spectral_2_clusters_def spectral_2_def spectral_post_process_def
        labels3_def line3_def number_of_nodes_def upto.simps numeral_2_eq_2)
  moreover have "(0::int) \<in> set (nodes line3)"
    by (simp add: line3_def)
  moreover have "(0::int) \<notin> (\<Union>c \<in> set [[1, 2], [3]]. set c)"
    by simp
  ultimately show ?thesis by metis
qed

text \<open>
  Claim C4 says that the keys of the mapping returned by the spectral clusterer are the
  node identifiers of the graph. On the path with the nodes 0, 1, 2 both variants return
  a mapping with the keys 1, 2, 3: node 0 is not a key, and the label of the row of node
  0 is stored under the key 1.
\<close>

theorem spectral_keys_shifted:
  "spectral labels3 rs line3 2 = (Inr [(1, 0), (2, 0), (3, 1)], rs)
   \<and> spectral_2 labels3 rs line3 2 = (Inr [(1, 0), (2, 0), (3, 1)], rs)
   \<and> map fst [(1::int, 0::nat), (2, 0), (3, 1)] \<noteq> nodes line3
   \<and> 0 \<in> set (nodes line3) \<and> 0 \<notin> fst ` set [(1::int, 0::nat), (2, 0), (3, 1)]"
  by (simp add: spectral_def spectral_2_def labels3_def line3_def number_of_nodes_def
      upto.simps)











section \<open>Properties of the flow parameter search\<close>

text \<open>A split of an integer range: what stands before an element is what is below it.\<close>

lemma upto_split:
  assumes "[a..b] = pre @ x # post"
  shows "a \<le> x" "x \<le> b" "\<And>y. a \<le> y \<Longrightarrow> y < x \<Longrightarrow> y \<in> set pre"
proof -
  have "x \<in> set [a..b]" using assms by simp
  then show "a \<le> x" "x \<le> b" by simp_all
  fix y assume y: "a \<le> y" "y < x"
  have "sorted (pre @ x # post)" using assms sorted_upto by metis
  then have "\<forall>z \<in> set post. x \<le> z" by (simp add: sorted_append)
  moreover have "y \<in> set (pre @ x # post)" using y \<open>x \<le> b\<close> assms[symmetric] by simp
  ultimately show "y \<in> set pre" using y by auto
qed


text \<open>
  The invariant of the loop of \<open>mc_train\<close>, on indices whose trials return the
  modularities \<open>Q\<close>: the loop returns, the series grows by one modularity per index,
  the running maximum bounds every trial seen, and either the state is the one the loop
  started from or it holds the first index that reaches the final maximum, which is then
  above the starting maximum.
\<close>

lemma mc_train_loop_spec:
  assumes "\<forall>i \<in> set xs. trial_modularity lib mat e i = Inr (Q i)"
  shows "\<exists>a' m'. mc_train_loop lib mat e xs (a, m, ser) = Inr (a', m', ser @ map Q xs) \<and>
     m \<le> m' \<and> (\<forall>i \<in> set xs. Q i \<le> m') \<and>
     ((a' = a \<and> m' = m) \<or>
      (\<exists>pre i post. xs = pre @ i # post \<and> a' = real_of_int i / 10 \<and>
          m' = Q i \<and> m < m' \<and> (\<forall>j \<in> set pre. Q j < m')))"
  using assms
proof (induction xs arbitrary: a m ser)
  case Nil
  then show ?case by simp
next
  case (Cons i rest)
  have t: "mc_loop lib mat e (real_of_int i / 10) = Inr (Q i)"
    using Cons.prems by (simp add: trial_modularity_def)
  have rest: "\<forall>k \<in> set rest. trial_modularity lib mat e k = Inr (Q k)"
    using Cons.prems by simp
  show ?case
  proof (cases "Q i > m")
    case True
    obtain a' m' where run: "mc_train_loop lib mat e rest (real_of_int i / 10, Q i, ser @ [Q i])
          = Inr (a', m', (ser @ [Q i]) @ map Q rest)"
      and le: "Q i \<le> m'" and all: "\<forall>k \<in> set rest. Q k \<le> m'"
      and alt: "(a' = real_of_int i / 10 \<and> m' = Q i) \<or>
        (\<exists>pre j post. rest = pre @ j # post \<and> a' = real_of_int j / 10 \<and>
            m' = Q j \<and> Q i < m' \<and> (\<forall>k \<in> set pre. Q k < m'))"
      using Cons.IH[OF rest, of "real_of_int i / 10" "Q i" "ser @ [Q i]"] by blast
    from alt consider (same) "a' = real_of_int i / 10" "m' = Q i"
      | (later) pre j post where "rest = pre @ j # post" "a' = real_of_int j / 10"
          "m' = Q j" "Q i < m'" "\<forall>k \<in> set pre. Q k < m'"
      by blast
    then have "\<exists>pre j post. i # rest = pre @ j # post \<and> a' = real_of_int j / 10 \<and>
          m' = Q j \<and> m < m' \<and> (\<forall>k \<in> set pre. Q k < m')"
    proof cases
      case same
      then show ?thesis using True by (intro exI[of _ "[]"] exI[of _ i] exI[of _ rest]) simp
    next
      case later
      then show ?thesis using True
        by (intro exI[of _ "i # pre"] exI[of _ j] exI[of _ post]) simp
    qed
    moreover have "mc_train_loop lib mat e (i # rest) (a, m, ser) = Inr (a', m', ser @ map Q (i # rest))"
      using run True t by simp
    ultimately show ?thesis using le all True by (intro exI[of _ a'] exI[of _ m']) auto
  next
    case False
    obtain a' m' where run: "mc_train_loop lib mat e rest (a, m, ser @ [Q i])
          = Inr (a', m', (ser @ [Q i]) @ map Q rest)"
      and le: "m \<le> m'" and all: "\<forall>k \<in> set rest. Q k \<le> m'"
      and alt: "(a' = a \<and> m' = m) \<or>
        (\<exists>pre j post. rest = pre @ j # post \<and> a' = real_of_int j / 10 \<and>
            m' = Q j \<and> m < m' \<and> (\<forall>k \<in> set pre. Q k < m'))"
      using Cons.IH[OF rest, of a m "ser @ [Q i]"] by blast
    from alt consider (same) "a' = a" "m' = m"
      | (later) pre j post where "rest = pre @ j # post" "a' = real_of_int j / 10"
          "m' = Q j" "m < m'" "\<forall>k \<in> set pre. Q k < m'"
      by blast
    then have "(a' = a \<and> m' = m) \<or> (\<exists>pre j post. i # rest = pre @ j # post \<and>
          a' = real_of_int j / 10 \<and> m' = Q j \<and> m < m' \<and> (\<forall>k \<in> set pre. Q k < m'))"
    proof cases
      case same
      then show ?thesis by simp
    next
      case later
      then have "i # rest = (i # pre) @ j # post \<and> a' = real_of_int j / 10 \<and>
          m' = Q j \<and> m < m' \<and> (\<forall>k \<in> set (i # pre). Q k < m')"
        using False by auto
      then show ?thesis by blast
    qed
    moreover have "mc_train_loop lib mat e (i # rest) (a, m, ser) = Inr (a', m', ser @ map Q (i # rest))"
      using run False t by simp
    ultimately show ?thesis using le all False by (intro exI[of _ a'] exI[of _ m']) auto
  qed
qed

lemma mc_train_spec:
  assumes "\<forall>i \<in> {s..<t}. trial_modularity lib mat e i = Inr (Q i)"
  shows "\<exists>ci cm. mc_train lib mat e s t = Inr (ci, cm, map Q [s..t - 1]) \<and>
     0 \<le> cm \<and> (\<forall>i \<in> {s..<t}. Q i \<le> cm) \<and>
     ((ci = 0 \<and> cm = 0) \<or>
      (\<exists>i \<in> {s..<t}. ci = real_of_int i / 10 \<and> cm = Q i \<and> 0 < cm \<and>
          (\<forall>j \<in> {s..<i}. Q j < cm)))"
proof -
  have ok: "\<forall>i \<in> set [s..t - 1]. trial_modularity lib mat e i = Inr (Q i)"
    using assms by simp
  obtain ci cm where r: "mc_train_loop lib mat e [s..t - 1] (0, 0, []) = Inr (ci, cm, [] @ map Q [s..t - 1])"
    and nn: "0 \<le> cm" and all: "\<forall>i \<in> set [s..t - 1]. Q i \<le> cm"
    and alt: "(ci = 0 \<and> cm = 0) \<or>
      (\<exists>pre i post. [s..t - 1] = pre @ i # post \<and> ci = real_of_int i / 10 \<and>
          cm = Q i \<and> 0 < cm \<and> (\<forall>j \<in> set pre. Q j < cm))"
    using mc_train_loop_spec[OF ok, of 0 0 "[]"] by blast
  from alt consider (same) "ci = 0" "cm = 0"
    | (upd) pre i post where "[s..t - 1] = pre @ i # post" "ci = real_of_int i / 10"
        "cm = Q i" "0 < cm" "\<forall>j \<in> set pre. Q j < cm"
    by blast
  then have "(ci = 0 \<and> cm = 0) \<or>
      (\<exists>i \<in> {s..<t}. ci = real_of_int i / 10 \<and> cm = Q i \<and> 0 < cm \<and> (\<forall>j \<in> {s..<i}. Q j < cm))"
  proof cases
    case same
    then show ?thesis by simp
  next
    case upd
    have "i \<in> {s..<t}" using upto_split(1,2)[OF upd(1)] by simp
    moreover have "\<forall>j \<in> {s..<i}. Q j < cm"
      using upto_split(3)[OF upd(1)] upd(5) by simp
    ultimately show ?thesis using upd(2,3,4) by blast
  qed
  moreover have "\<forall>i \<in> {s..<t}. Q i \<le> cm" using all by simp
  ultimately show ?thesis using r nn by (simp add: mc_train_def)
qed


text \<open>The same invariant for the loop over the expansions.\<close>

lemma markov_loop_spec:
  assumes "\<forall>e \<in> set es. mc_train lib mat e s t = Inr (CI e, CM e, SR e)"
  shows "\<exists>x' a' m'. markov_loop lib mat es s t (x, a, m, sers) = Inr (x', a', m', sers @ map SR es) \<and>
     m \<le> m' \<and> (\<forall>e \<in> set es. CM e \<le> m') \<and>
     ((x' = x \<and> a' = a \<and> m' = m) \<or>
      (\<exists>pre e post. es = pre @ e # post \<and> x' = e \<and> a' = CI e \<and>
          m' = CM e \<and> m < m' \<and> (\<forall>k \<in> set pre. CM k < m')))"
  using assms
proof (induction es arbitrary: x a m sers)
  case Nil
  then show ?case by simp
next
  case (Cons i rest)
  have T: "mc_train lib mat i s t = Inr (CI i, CM i, SR i)"
    using Cons.prems by simp
  have rest: "\<forall>e \<in> set rest. mc_train lib mat e s t = Inr (CI e, CM e, SR e)"
    using Cons.prems by simp
  show ?case
  proof (cases "m < CM i")
    case True
    obtain x' a' m' where run: "markov_loop lib mat rest s t (i, CI i, CM i, sers @ [SR i])
          = Inr (x', a', m', (sers @ [SR i]) @ map SR rest)"
      and le: "CM i \<le> m'" and all: "\<forall>k \<in> set rest. CM k \<le> m'"
      and alt: "(x' = i \<and> a' = CI i \<and> m' = CM i) \<or>
        (\<exists>pre j post. rest = pre @ j # post \<and> x' = j \<and> a' = CI j \<and>
            m' = CM j \<and> CM i < m' \<and> (\<forall>k \<in> set pre. CM k < m'))"
      using Cons.IH[OF rest, of i "CI i" "CM i" "sers @ [SR i]"] by blast
    from alt consider (same) "x' = i" "a' = CI i" "m' = CM i"
      | (later) pre j post where "rest = pre @ j # post" "x' = j" "a' = CI j"
          "m' = CM j" "CM i < m'" "\<forall>k \<in> set pre. CM k < m'"
      by blast
    then have "\<exists>pre j post. i # rest = pre @ j # post \<and> x' = j \<and> a' = CI j \<and>
          m' = CM j \<and> m < m' \<and> (\<forall>k \<in> set pre. CM k < m')"
    proof cases
      case same
      then show ?thesis using True
        by (intro exI[of _ "[]"] exI[of _ i] exI[of _ rest]) simp
    next
      case later
      then show ?thesis using True
        by (intro exI[of _ "i # pre"] exI[of _ j] exI[of _ post]) simp
    qed
    moreover have "markov_loop lib mat (i # rest) s t (x, a, m, sers)
        = Inr (x', a', m', sers @ map SR (i # rest))"
      using run True T by simp
    ultimately show ?thesis using le all True
      by (intro exI[of _ x'] exI[of _ a'] exI[of _ m']) auto
  next
    case False
    obtain x' a' m' where run: "markov_loop lib mat rest s t (x, a, m, sers @ [SR i])
          = Inr (x', a', m', (sers @ [SR i]) @ map SR rest)"
      and le: "m \<le> m'" and all: "\<forall>k \<in> set rest. CM k \<le> m'"
      and alt: "(x' = x \<and> a' = a \<and> m' = m) \<or>
        (\<exists>pre j post. rest = pre @ j # post \<and> x' = j \<and> a' = CI j \<and>
            m' = CM j \<and> m < m' \<and> (\<forall>k \<in> set pre. CM k < m'))"
      using Cons.IH[OF rest, of x a m "sers @ [SR i]"] by blast
    from alt consider (same) "x' = x" "a' = a" "m' = m"
      | (later) pre j post where "rest = pre @ j # post" "x' = j" "a' = CI j"
          "m' = CM j" "m < m'" "\<forall>k \<in> set pre. CM k < m'"
      by blast
    then have "(x' = x \<and> a' = a \<and> m' = m) \<or> (\<exists>pre j post. i # rest = pre @ j # post \<and>
          x' = j \<and> a' = CI j \<and> m' = CM j \<and> m < m' \<and> (\<forall>k \<in> set pre. CM k < m'))"
    proof cases
      case same
      then show ?thesis by simp
    next
      case later
      then have "i # rest = (i # pre) @ j # post \<and> x' = j \<and> a' = CI j \<and>
          m' = CM j \<and> m < m' \<and> (\<forall>k \<in> set (i # pre). CM k < m')"
        using False by auto
      then show ?thesis by blast
    qed
    moreover have "markov_loop lib mat (i # rest) s t (x, a, m, sers)
        = Inr (x', a', m', sers @ map SR (i # rest))"
      using run False T by simp
    ultimately show ?thesis using le all False
      by (intro exI[of _ x'] exI[of _ a'] exI[of _ m']) auto
  qed
qed



text \<open>
  The search, when every trial returns: it ends at the baseline, or at the first trial,
  in iteration order, that reaches the maximum modularity, which is then above 0.
\<close>

lemma markov_search_spec:
  assumes ok: "\<forall>e \<in> {es..ee}. \<forall>i \<in> {s..<t}. trial_modularity lib mat e i = Inr (Q e i)"
  shows "\<exists>x a m. markov_search lib mat es ee s t =
       Inr (x, a, m, map (\<lambda>e. map (Q e) [s..t - 1]) [es..ee]) \<and>
     (\<forall>e \<in> {es..ee}. \<forall>i \<in> {s..<t}. Q e i \<le> m) \<and>
     ((x = 0 \<and> a = 0 \<and> m = 0) \<or>
      (\<exists>i \<in> {s..<t}. x \<in> {es..ee} \<and> a = real_of_int i / 10 \<and> m = Q x i \<and> 0 < m \<and>
          (\<forall>k \<in> {es..<x}. \<forall>j \<in> {s..<t}. Q k j < m) \<and> (\<forall>j \<in> {s..<i}. Q x j < m)))"
proof -
  have "\<forall>e \<in> {es..ee}. \<exists>p. mc_train lib mat e s t = Inr (fst p, snd p, map (Q e) [s..t - 1]) \<and>
      0 \<le> snd p \<and> (\<forall>i \<in> {s..<t}. Q e i \<le> snd p) \<and>
      ((fst p = 0 \<and> snd p = 0) \<or>
       (\<exists>i \<in> {s..<t}. fst p = real_of_int i / 10 \<and> snd p = Q e i \<and> 0 < snd p \<and>
          (\<forall>j \<in> {s..<i}. Q e j < snd p)))"
  proof
    fix e assume "e \<in> {es..ee}"
    then have "\<forall>i \<in> {s..<t}. trial_modularity lib mat e i = Inr (Q e i)"
      using ok by blast
    from mc_train_spec[OF this] show "\<exists>p. mc_train lib mat e s t = Inr (fst p, snd p, map (Q e) [s..t - 1]) \<and>
      0 \<le> snd p \<and> (\<forall>i \<in> {s..<t}. Q e i \<le> snd p) \<and>
      ((fst p = 0 \<and> snd p = 0) \<or>
       (\<exists>i \<in> {s..<t}. fst p = real_of_int i / 10 \<and> snd p = Q e i \<and> 0 < snd p \<and>
          (\<forall>j \<in> {s..<i}. Q e j < snd p)))"
      by auto
  qed
  then obtain f where f: "\<forall>e \<in> {es..ee}.
      mc_train lib mat e s t = Inr (fst (f e), snd (f e), map (Q e) [s..t - 1]) \<and>
      0 \<le> snd (f e) \<and> (\<forall>i \<in> {s..<t}. Q e i \<le> snd (f e)) \<and>
      ((fst (f e) = 0 \<and> snd (f e) = 0) \<or>
       (\<exists>i \<in> {s..<t}. fst (f e) = real_of_int i / 10 \<and> snd (f e) = Q e i \<and> 0 < snd (f e) \<and>
          (\<forall>j \<in> {s..<i}. Q e j < snd (f e))))"
    using bchoice[of "{es..ee}" "\<lambda>e p. mc_train lib mat e s t = Inr (fst p, snd p, map (Q e) [s..t - 1]) \<and>
      0 \<le> snd p \<and> (\<forall>i \<in> {s..<t}. Q e i \<le> snd p) \<and>
      ((fst p = 0 \<and> snd p = 0) \<or>
       (\<exists>i \<in> {s..<t}. fst p = real_of_int i / 10 \<and> snd p = Q e i \<and> 0 < snd p \<and>
          (\<forall>j \<in> {s..<i}. Q e j < snd p)))"] by blast
  let ?CI = "\<lambda>e. fst (f e)" and ?CM = "\<lambda>e. snd (f e)" and ?SR = "\<lambda>e. map (Q e) [s..t - 1]"
  have T: "\<forall>e \<in> set [es..ee]. mc_train lib mat e s t = Inr (?CI e, ?CM e, ?SR e)"
    using f by simp
  obtain x a m where r: "markov_loop lib mat [es..ee] s t (0, 0, 0, []) = Inr (x, a, m, [] @ map ?SR [es..ee])"
    and all: "\<forall>e \<in> set [es..ee]. ?CM e \<le> m"
    and alt: "(x = 0 \<and> a = 0 \<and> m = 0) \<or>
      (\<exists>pre e post. [es..ee] = pre @ e # post \<and> x = e \<and> a = ?CI e \<and>
          m = ?CM e \<and> 0 < m \<and> (\<forall>k \<in> set pre. ?CM k < m))"
    using markov_loop_spec[OF T, of 0 0 0 "[]"] by blast
  have bound: "\<forall>e \<in> {es..ee}. \<forall>i \<in> {s..<t}. Q e i \<le> m"
  proof (intro ballI)
    fix e i assume e: "e \<in> {es..ee}" and i: "i \<in> {s..<t}"
    have "Q e i \<le> ?CM e" using f e i by blast
    moreover have "?CM e \<le> m" using all e by simp
    ultimately show "Q e i \<le> m" by simp
  qed
  from alt consider (same) "x = 0" "a = 0" "m = 0"
    | (upd) pre e post where "[es..ee] = pre @ e # post" "x = e" "a = ?CI e"
        "m = ?CM e" "0 < m" "\<forall>k \<in> set pre. ?CM k < m"
    by blast
  then have "(x = 0 \<and> a = 0 \<and> m = 0) \<or>
      (\<exists>i \<in> {s..<t}. x \<in> {es..ee} \<and> a = real_of_int i / 10 \<and> m = Q x i \<and> 0 < m \<and>
          (\<forall>k \<in> {es..<x}. \<forall>j \<in> {s..<t}. Q k j < m) \<and> (\<forall>j \<in> {s..<i}. Q x j < m))"
  proof cases
    case same
    then show ?thesis by simp
  next
    case upd
    have xe: "x \<in> {es..ee}" using upto_split(1,2)[OF upd(1)] upd(2) by simp
    have before: "\<forall>k \<in> {es..<x}. ?CM k < m"
      using upto_split(3)[OF upd(1)] upd(2,6) by simp
    have "\<forall>k \<in> {es..<x}. \<forall>j \<in> {s..<t}. Q k j < m"
    proof (intro ballI)
      fix k j assume k: "k \<in> {es..<x}" and j: "j \<in> {s..<t}"
      have "k \<in> {es..ee}" using k xe by simp
      then have "Q k j \<le> ?CM k" using f j by blast
      then show "Q k j < m" using before k by fastforce
    qed
    moreover from f xe upd(2,3,4,5) obtain i where "i \<in> {s..<t}" "a = real_of_int i / 10"
        "m = Q x i" "\<forall>j \<in> {s..<i}. Q x j < m"
      by (metis less_irrefl)
    ultimately show ?thesis using xe upd(5) by blast
  qed
  then show ?thesis using r bound by (simp add: markov_search_def)
qed


text \<open>
  Claim C2, as stated: for every matrix and ranges the search selects the pair with the
  maximum modularity among the trials, and returns the cluster set of a run at that
  pair. With a modularity of \<open>-1/10\<close> at the one trial (expansion 2, inflation 1.1), the
  search selects expansion 0 and inflation 0, which is no trial, and returns the cluster
  set of the run at (0, 0), not of the run at (2, 1.1).
\<close>

theorem markov_baseline_not_a_trial:
  "markov_search sunk_lib () 2 2 11 12 = Inr (0, 0, 0, [[- 1 / 10]])
   \<and> markov_grand_loop sunk_lib () 2 2 11 12 = Inr (0, 0)
   \<and> mc_loop_final sunk_lib () 2 (11 / 10) = Inr (2, 11 / 10)
   \<and> markov_grand_loop sunk_lib () 2 2 11 12 \<noteq> mc_loop_final sunk_lib () 2 (11 / 10)"
  by (simp add: markov_grand_loop_def markov_search_def mc_train_def mc_loop_def
      mc_loop_final_def sunk_lib_def upto.simps Let_def)


text \<open>
  Claim C2, amended: when every trial returns a modularity and some trial has a
  modularity above 0, the search evaluates every combination of an expansion in
  \<open>[e_min, e_max]\<close> and an inflation index in \<open>[i_min, i_max)\<close>, recording the
  modularities in this order, and selects a pair of maximum modularity; every trial with
  a smaller expansion, and every trial with the same expansion and a smaller inflation
  index, has a strictly smaller modularity, so that the first maximum met wins; the
  search returns the cluster set of one more run at the selected pair.
\<close>

theorem markov_search_first_max:
  assumes ok: "\<forall>e \<in> {es..ee}. \<forall>i \<in> {s..<t}. trial_modularity lib mat e i = Inr (Q e i)"
    and pos: "\<exists>e \<in> {es..ee}. \<exists>i \<in> {s..<t}. 0 < Q e i"
  shows "\<exists>e' i'. e' \<in> {es..ee} \<and> i' \<in> {s..<t} \<and>
     markov_search lib mat es ee s t =
       Inr (e', real_of_int i' / 10, Q e' i', map (\<lambda>e. map (Q e) [s..t - 1]) [es..ee]) \<and>
     (\<forall>e \<in> {es..ee}. \<forall>i \<in> {s..<t}. Q e i \<le> Q e' i') \<and>
     (\<forall>e \<in> {es..<e'}. \<forall>i \<in> {s..<t}. Q e i < Q e' i') \<and>
     (\<forall>i \<in> {s..<i'}. Q e' i < Q e' i') \<and>
     markov_grand_loop lib mat es ee s t = mc_loop_final lib mat e' (real_of_int i' / 10) \<and>
     (\<exists>c. markov_grand_loop lib mat es ee s t = Inr c)"
proof -
  obtain x a m where S: "markov_search lib mat es ee s t =
       Inr (x, a, m, map (\<lambda>e. map (Q e) [s..t - 1]) [es..ee])"
    and bound: "\<forall>e \<in> {es..ee}. \<forall>i \<in> {s..<t}. Q e i \<le> m"
    and alt: "(x = 0 \<and> a = 0 \<and> m = 0) \<or>
      (\<exists>i \<in> {s..<t}. x \<in> {es..ee} \<and> a = real_of_int i / 10 \<and> m = Q x i \<and> 0 < m \<and>
          (\<forall>k \<in> {es..<x}. \<forall>j \<in> {s..<t}. Q k j < m) \<and> (\<forall>j \<in> {s..<i}. Q x j < m))"
    using markov_search_spec[OF ok] by blast
  have "0 < m" using pos bound by fastforce
  with alt obtain i where i: "i \<in> {s..<t}" "x \<in> {es..ee}" "a = real_of_int i / 10" "m = Q x i"
      "\<forall>k \<in> {es..<x}. \<forall>j \<in> {s..<t}. Q k j < m" "\<forall>j \<in> {s..<i}. Q x j < m"
    by auto
  have g: "markov_grand_loop lib mat es ee s t = mc_loop_final lib mat x (real_of_int i / 10)"
    by (simp add: markov_grand_loop_def S i(3))
  have "trial_modularity lib mat x i = Inr (Q x i)" using ok i(1,2) by blast
  then obtain res where "run_mcl lib mat x (real_of_int i / 10) = Inr res"
    by (auto simp: trial_modularity_def mc_loop_def split: sum.splits)
  then have "\<exists>c. markov_grand_loop lib mat es ee s t = Inr c"
    by (simp add: g mc_loop_final_def)
  then show ?thesis using S bound i g by blast
qed


text \<open>
  With the modularity \<open>1/2\<close> at inflation 1.2 for both expansions 2 and 3 and \<open>1/4\<close>
  elsewhere, the search selects expansion 2 and inflation 1.2.
\<close>

theorem markov_search_first_max_witness:
  "markov_search peak_lib () 2 3 11 14
       = Inr (2, 12 / 10, 1 / 2, [[1 / 4, 1 / 2, 1 / 4], [1 / 4, 1 / 2, 1 / 4]])
   \<and> markov_grand_loop peak_lib () 2 3 11 14 = Inr (2, 12 / 10)
   \<and> (\<exists>e' i'. e' \<in> {2..3} \<and> i' \<in> {11..<14} \<and>
        markov_grand_loop peak_lib () 2 3 11 14 = mc_loop_final peak_lib () e' (real_of_int i' / 10))"
proof -
  let ?Q = "\<lambda>(e::int) (i::int). if i = 12 then 1 / 2 else 1 / (4::real)"
  have ok: "\<forall>e \<in> {2..3}. \<forall>i \<in> {11..<14}. trial_modularity peak_lib () e i = Inr (?Q e i)"
    by (auto simp: trial_modularity_def mc_loop_def peak_lib_def)
  have pos: "\<exists>e \<in> {2..3::int}. \<exists>i \<in> {11..<14::int}. 0 < ?Q e i"
    by (intro bexI[of _ 2] bexI[of _ 11]) simp_all
  have s: "markov_search peak_lib () 2 3 11 14
       = Inr (2, 12 / 10, 1 / 2, [[1 / 4, 1 / 2, 1 / 4], [1 / 4, 1 / 2, 1 / 4]])"
    by (simp add: markov_search_def mc_train_def mc_loop_def peak_lib_def upto.simps Let_def)
  have g: "markov_grand_loop peak_lib () 2 3 11 14 = Inr (2, 12 / 10)"
    unfolding markov_grand_loop_def s by (simp add: mc_loop_final_def peak_lib_def)
  show ?thesis
    using s g markov_search_first_max [OF ok pos] by blast
qed


text \<open>
  When every trial returns a modularity of at most 0, the loops of the search end,
  without an error, with the baseline expansion 0 and inflation 0 and the baseline
  modularity 0, and the search then runs the clusterer at expansion 0 and inflation 0.
\<close>

lemma markov_search_baseline:
  assumes ok: "\<forall>e \<in> {es..ee}. \<forall>i \<in> {s..<t}. trial_modularity lib mat e i = Inr (Q e i)"
    and low: "\<forall>e \<in> {es..ee}. \<forall>i \<in> {s..<t}. Q e i \<le> 0"
  shows "markov_search lib mat es ee s t =
       Inr (0, 0, 0, map (\<lambda>e. map (Q e) [s..t - 1]) [es..ee]) \<and>
     markov_grand_loop lib mat es ee s t = mc_loop_final lib mat 0 0"
proof -
  obtain x a m where S: "markov_search lib mat es ee s t =
       Inr (x, a, m, map (\<lambda>e. map (Q e) [s..t - 1]) [es..ee])"
    and alt: "(x = 0 \<and> a = 0 \<and> m = 0) \<or>
      (\<exists>i \<in> {s..<t}. x \<in> {es..ee} \<and> a = real_of_int i / 10 \<and> m = Q x i \<and> 0 < m \<and>
          (\<forall>k \<in> {es..<x}. \<forall>j \<in> {s..<t}. Q k j < m) \<and> (\<forall>j \<in> {s..<i}. Q x j < m))"
    using markov_search_spec[OF ok] by blast
  have "x = 0 \<and> a = 0 \<and> m = 0" using alt low by fastforce
  then show ?thesis using S by (simp add: markov_grand_loop_def)
qed


text \<open>
  Claim C8 says that, when every trial has a modularity of at most 0, the search reports
  the baseline parameters rather than raising an error. With a clusterer that checks its
  arguments as \<open>run_mcl\<close> does, and trials of modularity 0, the loops end at the
  baseline and the final run at expansion 0 and inflation 0 raises AssertionError: the
  search raises.
\<close>

theorem markov_baseline_final_run_raises:
  "trial_modularity strict_lib () 2 11 = Inr 0
   \<and> trial_modularity strict_lib () 2 12 = Inr 0
   \<and> trial_modularity strict_lib () 3 11 = Inr 0
   \<and> trial_modularity strict_lib () 3 12 = Inr 0
   \<and> markov_search strict_lib () 2 3 11 13 = Inr (0, 0, 0, [[0, 0], [0, 0]])
   \<and> mc_loop_final strict_lib () 0 0 = Inl AssertionError
   \<and> markov_grand_loop strict_lib () 2 3 11 13 = Inl AssertionError"
proof -
  have t: "trial_modularity strict_lib () 2 11 = Inr 0"
      "trial_modularity strict_lib () 2 12 = Inr 0"
      "trial_modularity strict_lib () 3 11 = Inr 0"
      "trial_modularity strict_lib () 3 12 = Inr 0"
    by (simp_all add: trial_modularity_def mc_loop_def strict_lib_def)
  have s: "markov_search strict_lib () 2 3 11 13 = Inr (0, 0, 0, [[0, 0], [0, 0]])"
    by (simp add: markov_search_def mc_train_def mc_loop_def strict_lib_def upto.simps
        Let_def)
  have f: "mc_loop_final strict_lib () 0 0 = Inl AssertionError"
    by (simp add: mc_loop_final_def strict_lib_def)
  have g: "markov_grand_loop strict_lib () 2 3 11 13 = Inl AssertionError"
    unfolding markov_grand_loop_def s by (simp add: f)
  show ?thesis
    using t s f g by simp
qed

end
